theory Spec2Isabelle
  imports Main "HOL-Library.Word" "HOL-Library.FSet"
begin

section \<open>Chordy: BLE chorded keyboard firmware (firmware/main.py)\<close>

text \<open>
  The firmware polls six buttons, debounces the pressed set, and on every accepted
  change sends HID reports to the connected centrals. The embedding follows
  \<^verbatim>\<open>firmware/main.py\<close> top to bottom: the byte packing of the \<^verbatim>\<open>struct\<close> module,
  the module constants, class \<^verbatim>\<open>BLEKeyboard\<close>, the helper functions and the loop
  of \<^verbatim>\<open>main\<close>.
\<close>

subsection \<open>Bytes and \<^verbatim>\<open>struct.pack\<close>\<close>

type_synonym byte = "8 word"
type_synonym bytes = "byte list"

text \<open>
  Python exceptions the firmware can raise: \<^verbatim>\<open>struct.error\<close> from \<^verbatim>\<open>struct.pack\<close>,
  \<^verbatim>\<open>ValueError\<close> from \<^verbatim>\<open>bytearray.extend\<close> with an item outside \<^verbatim>\<open>range(256)\<close>,
  \<^verbatim>\<open>UnicodeEncodeError\<close> from \<^verbatim>\<open>str.encode\<close>.
\<close>

datatype error = StructError | ValueError | UnicodeEncodeError

text \<open>
  The two format codes the firmware uses, both little-endian (\<^verbatim>\<open><\<close>):
  \<^verbatim>\<open>B\<close> is an unsigned byte, \<^verbatim>\<open>H\<close> an unsigned 16-bit integer. A repeat count as in
  \<^verbatim>\<open>6B\<close> is written out with \<^const>\<open>replicate\<close>.
\<close>

datatype fmt = U8 | U16

text \<open>
  \<^verbatim>\<open>struct.pack\<close> after the Python library reference: one argument per format code,
  \<^verbatim>\<open>struct.error\<close> when an argument is outside the range of its code or when the
  number of arguments differs from the number of codes.
\<close>

fun pack_field :: "fmt \<Rightarrow> int \<Rightarrow> error + bytes" where
  "pack_field U8 v =
     (if 0 \<le> v \<and> v \<le> 255 then Inr [word_of_int v] else Inl StructError)"
| "pack_field U16 v =
     (if 0 \<le> v \<and> v \<le> 65535
      then Inr [word_of_int (v mod 256), word_of_int (v div 256)]
      else Inl StructError)"

fun struct_pack :: "fmt list \<Rightarrow> int list \<Rightarrow> error + bytes" where
  "struct_pack [] [] = Inr []"
| "struct_pack (f # fs) (v # vs) =
     (case pack_field f v of
        Inl e \<Rightarrow> Inl e
      | Inr b \<Rightarrow> (case struct_pack fs vs of Inl e \<Rightarrow> Inl e | Inr bs \<Rightarrow> Inr (b @ bs)))"
| "struct_pack _ _ = Inl StructError"

text \<open>The format strings of the source: \<^verbatim>\<open>"<HHBB"\<close> and \<^verbatim>\<open>"<BB6B"\<close>.\<close>

definition fmt_HHBB :: "fmt list" where
  "fmt_HHBB = [U16, U16, U8, U8]"

definition fmt_BB6B :: "fmt list" where
  "fmt_BB6B = [U8, U8] @ replicate 6 U8"

subsection \<open>Module constants\<close>

definition IRQ_CENTRAL_CONNECT :: int where
  "IRQ_CENTRAL_CONNECT = 1"

definition IRQ_CENTRAL_DISCONNECT :: int where
  "IRQ_CENTRAL_DISCONNECT = 2"

text \<open>\<^verbatim>\<open>_HID_INFO = struct.pack("<HHBB", 0x0111, 0x0000, 0x01, 0x01)\<close>\<close>

definition HID_INFO :: "error + bytes" where
  "HID_INFO = struct_pack fmt_HHBB [0x0111, 0x0000, 0x01, 0x01]"


subsection \<open>The key report of \<^verbatim>\<open>BLEKeyboard.key_press\<close>\<close>

text \<open>
  The first two lines of \<^verbatim>\<open>key_press\<close>:
  \<^verbatim>\<open>padded = keycodes + [0x00] * (6 - len(keycodes))\<close> and
  \<^verbatim>\<open>report = struct.pack("<BB6B", 0x01, modifier, *padded)\<close>.
  A list times a negative number is the empty list in Python, as \<^const>\<open>nat\<close> of a
  negative number is 0 here.
\<close>

definition key_report :: "int \<Rightarrow> int list \<Rightarrow> error + bytes" where
  "key_report modifier keycodes =
     (let padded = keycodes @ replicate (nat (6 - int (length keycodes))) 0x00
      in struct_pack fmt_BB6B ([0x01, modifier] @ padded))"

subsection \<open>The lookup tables\<close>

text \<open>\<^verbatim>\<open>KEY_CODES\<close>: HID usage codes by key name.\<close>

definition KEY_CODES_items :: "(string \<times> int) list" where
  "KEY_CODES_items =
     [(''A'', 0x04), (''B'', 0x05), (''C'', 0x06), (''D'', 0x07), (''E'', 0x08),
      (''F'', 0x09), (''G'', 0x0A), (''H'', 0x0B), (''I'', 0x0C), (''J'', 0x0D),
      (''K'', 0x0E), (''L'', 0x0F), (''M'', 0x10), (''N'', 0x11), (''O'', 0x12),
      (''P'', 0x13), (''Q'', 0x14), (''R'', 0x15), (''S'', 0x16), (''T'', 0x17),
      (''U'', 0x18), (''V'', 0x19), (''W'', 0x1A), (''X'', 0x1B), (''Y'', 0x1C),
      (''Z'', 0x1D), (''1'', 0x1E), (''2'', 0x1F), (''3'', 0x20), (''4'', 0x21),
      (''5'', 0x22), (''6'', 0x23), (''7'', 0x24), (''8'', 0x25), (''9'', 0x26),
      (''0'', 0x27), (''ENTER'', 0x28), (''ESC'', 0x29), (''BACKSPACE'', 0x2A),
      (''TAB'', 0x2B), (''SPACE'', 0x2C)]"

definition KEY_CODES :: "string \<rightharpoonup> int" where
  "KEY_CODES = map_of KEY_CODES_items"

text \<open>
  \<^verbatim>\<open>COMBO_MAP\<close>: tuples of pressed button indices to (modifier, key codes). Every
  subscript \<^verbatim>\<open>KEY_CODES["..."]\<close> of the source names a key of the table, so
  \<^const>\<open>the\<close> never meets \<^const>\<open>None\<close> (lemma \<open>COMBO_MAP_items_eval\<close> below
  evaluates the table). The keys are pairwise different, so the association list
  and the dictionary agree.
\<close>

type_synonym combo_map = "nat list \<rightharpoonup> int \<times> int list"

definition COMBO_MAP_items :: "(nat list \<times> int \<times> int list) list" where
  "COMBO_MAP_items =
     [([0], (0x00, [the (KEY_CODES ''F'')])),
      ([1], (0x00, [the (KEY_CODES ''J'')])),
      ([2], (0x00, [the (KEY_CODES ''D'')])),
      ([3], (0x00, [the (KEY_CODES ''K'')])),
      ([4], (0x00, [the (KEY_CODES ''S'')])),
      ([5], (0x00, [the (KEY_CODES ''L'')])),
      ([0, 1], (0x00, [the (KEY_CODES ''SPACE'')])),
      ([2, 3], (0x00, [the (KEY_CODES ''ENTER'')])),
      ([4, 5], (0x00, [the (KEY_CODES ''TAB'')])),
      ([0, 2], (0x02, [the (KEY_CODES ''A'')])),
      ([1, 3], (0x02, [the (KEY_CODES ''H'')])),
      ([0, 5], (0x00, [the (KEY_CODES ''BACKSPACE'')]))]"

definition COMBO_MAP :: combo_map where
  "COMBO_MAP = map_of COMBO_MAP_items"

definition DEBOUNCE_MS :: int where
  "DEBOUNCE_MS = 25"

definition POLL_INTERVAL_MS :: int where
  "POLL_INTERVAL_MS = 10"

subsection \<open>Class \<^verbatim>\<open>BLEKeyboard\<close>\<close>

text \<open>
  The radio stack (\<^verbatim>\<open>bluetooth.BLE\<close>) is not part of the firmware. What the firmware
  does to it is recorded as the sequence of calls made on \<^verbatim>\<open>self._ble\<close>, in call
  order; the calls themselves are taken not to raise.
\<close>

datatype ble_call =
    Active bool
  | Set_irq
  | Gatts_register_services
  | Gatts_write nat bytes
  | Gap_advertise nat bytes
  | Gatts_notify nat nat bytes

text \<open>
  The attributes of a \<^verbatim>\<open>BLEKeyboard\<close>. \<^verbatim>\<open>_connections\<close> is a Python \<^verbatim>\<open>set\<close> of
  connection handles, here a finite set.
\<close>

record BLEKeyboard =
  connections :: "nat fset"
  report_handle :: nat
  report_map_handle :: nat
  info_handle :: nat
  control_handle :: nat
  payload :: bytes
  ble_calls :: "ble_call list"

text \<open>\<^verbatim>\<open>_advertise\<close>: \<^verbatim>\<open>self._ble.gap_advertise(100_000, adv_data=self._payload)\<close>\<close>

definition advertise :: "BLEKeyboard \<Rightarrow> BLEKeyboard" where
  "advertise kb = kb\<lparr>ble_calls := ble_calls kb @ [Gap_advertise 100000 (payload kb)]\<rparr>"

text \<open>
  \<^verbatim>\<open>_irq(event, data)\<close>: for both events \<^verbatim>\<open>data\<close> is the triple (connection handle,
  address type, address) of the radio stack. \<^verbatim>\<open>set.add\<close> and \<^verbatim>\<open>set.discard\<close> are
  insertion into and removal from the set; any other event is ignored.
\<close>

definition irq :: "int \<Rightarrow> nat \<times> nat \<times> bytes \<Rightarrow> BLEKeyboard \<Rightarrow> BLEKeyboard" where
  "irq event data kb =
     (if event = IRQ_CENTRAL_CONNECT then
        (case data of (conn_handle, _, _) \<Rightarrow>
           kb\<lparr>connections := finsert conn_handle (connections kb)\<rparr>)
      else if event = IRQ_CENTRAL_DISCONNECT then
        (case data of (conn_handle, _, _) \<Rightarrow>
           advertise (kb\<lparr>connections := connections kb |-| {|conn_handle|}\<rparr>))
      else kb)"

text \<open>
  \<^verbatim>\<open>send_report\<close>: one \<^verbatim>\<open>gatts_notify\<close> per element of the set. Python does not
  fix the order in which \<^verbatim>\<open>for conn_handle in self._connections\<close> visits a set,
  only that every element is visited once. The order is therefore a parameter
  \<open>order\<close> of the model: the list in which the interpreter enumerates a given set.
  Nothing is assumed of it here; the theorems that need it assume that the list has
  no repetition and holds the elements of the set.
\<close>

type_synonym set_order = "nat fset \<Rightarrow> nat list"

definition send_report :: "set_order \<Rightarrow> bytes \<Rightarrow> BLEKeyboard \<Rightarrow> BLEKeyboard" where
  "send_report order report kb =
     kb\<lparr>ble_calls := ble_calls kb @
          map (\<lambda>conn_handle. Gatts_notify conn_handle (report_handle kb) report)
              (order (connections kb))\<rparr>"

definition key_press :: "set_order \<Rightarrow> int \<Rightarrow> int list \<Rightarrow> BLEKeyboard \<Rightarrow> error + BLEKeyboard" where
  "key_press order modifier keycodes kb =
     (case key_report modifier keycodes of
        Inl e \<Rightarrow> Inl e
      | Inr report \<Rightarrow> Inr (send_report order report kb))"

text \<open>\<^verbatim>\<open>release_all\<close>: \<^verbatim>\<open>struct.pack("<BB6B", 0x01, 0x00, 0, 0, 0, 0, 0, 0)\<close>, then sent.\<close>

definition release_all :: "set_order \<Rightarrow> BLEKeyboard \<Rightarrow> error + BLEKeyboard" where
  "release_all order kb =
     (case struct_pack fmt_BB6B [0x01, 0x00, 0, 0, 0, 0, 0, 0] of
        Inl e \<Rightarrow> Inl e
      | Inr report \<Rightarrow> Inr (send_report order report kb))"

subsection \<open>\<^verbatim>\<open>advertising_payload\<close>\<close>









subsection \<open>Scanning and the main loop\<close>

text \<open>
  \<^verbatim>\<open>scan_buttons\<close>: the indices of the pins whose \<^verbatim>\<open>value()\<close> is falsy (0, the line
  pulled low). The buttons are given by the levels read at this scan.
\<close>

definition scan_buttons :: "int list \<Rightarrow> nat list" where
  "scan_buttons buttons =
     map fst (filter (\<lambda>(index, pin). pin = 0) (enumerate 0 buttons))"

text \<open>
  \<^verbatim>\<open>utime.ticks_diff\<close> after the MicroPython reference: the signed difference of
  two tick values on a counter that wraps at \<^verbatim>\<open>TICKS_PERIOD\<close>, a power of two
  (\<open>2 ^ 30\<close> on the Pico).
\<close>

definition TICKS_PERIOD :: int where
  "TICKS_PERIOD = 2 ^ 30"

definition ticks_diff :: "int \<Rightarrow> int \<Rightarrow> int" where
  "ticks_diff ticks1 ticks2 =
     (ticks1 - ticks2 + TICKS_PERIOD div 2) mod TICKS_PERIOD - TICKS_PERIOD div 2"

text \<open>The local variables of \<^verbatim>\<open>main\<close> that live across iterations.\<close>

record main_state =
  keyboard :: BLEKeyboard
  last_state :: "nat list"
  last_change :: int

text \<open>
  One iteration of \<^verbatim>\<open>while True\<close>, given the levels read by \<^verbatim>\<open>scan_buttons\<close> and
  the value of \<^verbatim>\<open>utime.ticks_ms()\<close>. The table is a parameter; the firmware runs
  with \<^const>\<open>COMBO_MAP\<close>. \<^verbatim>\<open>if combo:\<close> tests a pair or \<^verbatim>\<open>None\<close>, and a pair is
  always truthy. The sleep at the end of the iteration changes no variable.
\<close>

definition loop_body :: "set_order \<Rightarrow> combo_map \<Rightarrow> int list \<Rightarrow> int \<Rightarrow> main_state
    \<Rightarrow> error + main_state" where
  "loop_body order cmap buttons now s =
     (let state = scan_buttons buttons
      in if state \<noteq> last_state s \<and> ticks_diff now (last_change s) > DEBOUNCE_MS then
           (case release_all order (keyboard s) of
              Inl e \<Rightarrow> Inl e
            | Inr kb1 \<Rightarrow>
                (case cmap state of
                   None \<Rightarrow>
                     Inr \<lparr>keyboard = kb1, last_state = state, last_change = now\<rparr>
                 | Some (modifier, keycodes) \<Rightarrow>
                     (case key_press order modifier keycodes kb1 of
                        Inl e \<Rightarrow> Inl e
                      | Inr kb2 \<Rightarrow>
                          Inr \<lparr>keyboard = kb2, last_state = state, last_change = now\<rparr>)))
         else Inr s)"

text \<open>
  What happens to the running firmware: a poll tick of the loop, or an event that
  the radio stack delivers to \<^verbatim>\<open>_irq\<close> between two ticks.
\<close>

datatype input = Poll "int list" int | Irq int "nat \<times> nat \<times> bytes"

fun main_step :: "set_order \<Rightarrow> combo_map \<Rightarrow> input \<Rightarrow> main_state \<Rightarrow> error + main_state" where
  "main_step order cmap (Poll buttons now) s = loop_body order cmap buttons now s"
| "main_step order cmap (Irq event data) s =
     Inr (s\<lparr>keyboard := irq event data (keyboard s)\<rparr>)"

text \<open>
  The loop never ends by itself; its behaviour is given on every finite sequence of
  inputs. An exception ends the run.
\<close>

fun main_loop :: "set_order \<Rightarrow> combo_map \<Rightarrow> input list \<Rightarrow> main_state
    \<Rightarrow> error + main_state" where
  "main_loop order cmap [] s = Inr s"
| "main_loop order cmap (i # inputs) s =
     (case main_step order cmap i s of
        Inl e \<Rightarrow> Inl e
      | Inr s' \<Rightarrow> main_loop order cmap inputs s')"



subsection \<open>The report layout of the specification\<close>


subsection \<open>States used as examples\<close>

text \<open>
  A keyboard with one connected central (handle 3), a loop state that accepted its
  last change at tick 100, and a table with one entry of seven key codes.
\<close>

abbreviation paired_keyboard :: BLEKeyboard where
  "paired_keyboard \<equiv>
     \<lparr>connections = {|3|}, report_handle = 10, report_map_handle = 11,
      info_handle = 12, control_handle = 13, payload = [], ble_calls = []\<rparr>"

abbreviation idle_keyboard :: BLEKeyboard where
  "idle_keyboard \<equiv>
     \<lparr>connections = {||}, report_handle = 10, report_map_handle = 11,
      info_handle = 12, control_handle = 13, payload = [], ble_calls = []\<rparr>"

abbreviation idle_state :: main_state where
  "idle_state \<equiv> \<lparr>keyboard = paired_keyboard, last_state = [], last_change = 100\<rparr>"


section \<open>Properties\<close>

subsection \<open>Packing\<close>

lemma fmt_BB6B_replicate: "fmt_BB6B = replicate 8 U8"
  by (simp add: fmt_BB6B_def eval_nat_numeral)



lemma struct_pack_U8:
  "\<forall>v \<in> set vs. 0 \<le> v \<and> v \<le> 255 \<Longrightarrow>
   struct_pack (replicate (length vs) U8) vs = Inr (map word_of_int vs)"
  by (induction vs) auto

text \<open>
  With at most six key codes, all arguments bytes, the packing succeeds and the
  report is the report id, the modifier and the six padded key codes, in this order.
\<close>

lemma key_report_bytes:
  assumes "length ks \<le> 6" and "0 \<le> m" and "m \<le> 255"
    and "\<forall>k \<in> set ks. 0 \<le> k \<and> k \<le> 255"
  shows "key_report m ks =
         Inr (map word_of_int (1 # m # ks @ replicate (6 - length ks) 0))"
proof -
  let ?vs = "1 # m # ks @ replicate (6 - length ks) 0"
  have len: "length ?vs = 8" using assms(1) by simp
  have rng: "\<forall>v \<in> set ?vs. 0 \<le> v \<and> v \<le> 255" using assms by auto
  have pad: "nat (6 - int (length ks)) = 6 - length ks" by simp
  have "key_report m ks = struct_pack (replicate (length ?vs) U8) ?vs"
    unfolding key_report_def Let_def fmt_BB6B_replicate len pad by simp
  then show ?thesis using struct_pack_U8 [OF rng] by simp
qed


lemma key_report_2_4: "key_report 2 [4] = Inr [1, 2, 4, 0, 0, 0, 0, 0]"
  by (simp add: key_report_bytes eval_nat_numeral)

text \<open>
  Claim C1. For every modifier byte and 0 to 6 key codes the report is said to be
  8 bytes laid out as report id 1, modifier, a reserved byte 0, then the key codes;
  for the chord (0, 2), mapped to modifier 0x02 and key code 0x04, the bytes are
  said to be 1, 2, 0, 4, 0, 0, 0, 0. The code packs no reserved byte: the third byte
  is the first key code. At this input \<^verbatim>\<open>key_press\<close> builds 1, 2, 4, 0, 0, 0, 0, 0,
  while the report map of the same file declares the constant byte between the
  modifier and the key codes.
\<close>

theorem key_report_shift_A:
  "COMBO_MAP [0, 2] = Some (0x02, [0x04]) \<and>
   key_report 0x02 [0x04] = Inr [1, 0x02, 0x04, 0, 0, 0, 0, 0] \<and>
   key_report 0x02 [0x04] \<noteq> Inr [1, 0x02, 0, 0x04, 0, 0, 0, 0]"
  by code_simp


text \<open>
  Claim C6. The HID information record written at initialisation is said to be 4
  bytes: bcdHID as 16 bits little-endian, the country code, the flags. The format
  \<^verbatim>\<open>"<HHBB"\<close> of the code has a second 16-bit field: the record is the 6 bytes
  0x11, 0x01, 0x00, 0x00, 0x01, 0x01.
\<close>

theorem HID_INFO_six_bytes:
  "HID_INFO = Inr [0x11, 0x01, 0x00, 0x00, 0x01, 0x01] \<and>
   (case HID_INFO of Inl e \<Rightarrow> 0 | Inr record \<Rightarrow> length record) = 6"
  by (simp add: HID_INFO_def fmt_HHBB_def)

subsection \<open>Sending\<close>

lemma release_all_eq:
  "release_all order kb = Inr (send_report order [1, 0, 0, 0, 0, 0, 0, 0] kb)"
  by (simp add: release_all_def fmt_BB6B_def eval_nat_numeral)

lemma ble_calls_send_report:
  "ble_calls (send_report order report kb) =
   ble_calls kb @ map (\<lambda>h. Gatts_notify h (report_handle kb) report) (order (connections kb))"
  by (simp add: send_report_def)

lemma send_report_fields:
  "connections (send_report order report kb) = connections kb"
  "report_handle (send_report order report kb) = report_handle kb"
  by (simp_all add: send_report_def)

lemma sorted_list_of_fset_distinct: "distinct (sorted_list_of_fset S)"
  by (simp add: sorted_list_of_fset.rep_eq)

lemma sorted_list_of_fset_single: "sorted_list_of_fset {|x|} = [x]"
  by (simp add: sorted_list_of_fset.rep_eq)

lemma sorted_list_of_fset_empty: "sorted_list_of_fset {||} = []"
  by (simp add: sorted_list_of_fset.rep_eq)

lemma count_list_distinct:
  "distinct xs \<Longrightarrow> count_list xs x = (if x \<in> set xs then 1 else 0)"
  by (induction xs) auto

lemma fcard_fset_of_list: "distinct xs \<Longrightarrow> fcard (fset_of_list xs) = length xs"
  by (simp add: fcard.rep_eq fset_of_list.rep_eq distinct_card)

lemma count_list_notify:
  "count_list (map (\<lambda>h. Gatts_notify h rh report) hs) (Gatts_notify h rh report) =
   count_list hs h"
  by (induction hs) auto

text \<open>
  Claim C8. If the connection set is empty at send time, \<^verbatim>\<open>send_report\<close> returns
  without an error and without an effect: no notification, no change of state.
  The order of iteration lists the elements of the set, here none.
\<close>

theorem send_report_no_connections:
  assumes "connections kb = {||}"
    and "fset_of_list (order (connections kb)) = connections kb"
  shows "send_report order report kb = kb"
proof -
  have "fset_of_list (order {||}) = ({||} :: nat fset)"
    using assms by simp
  then have "order {||} = []"
    by (cases "order {||}") simp_all
  then show ?thesis
    using assms(1) by (simp add: send_report_def)
qed

theorem send_report_no_connections_witness:
  "connections idle_keyboard = {||} \<and>
   fset_of_list (sorted_list_of_fset (connections idle_keyboard)) = connections idle_keyboard \<and>
   send_report sorted_list_of_fset [1, 0, 0, 0, 0, 0, 0, 0] idle_keyboard = idle_keyboard"
  using send_report_no_connections
    [of idle_keyboard sorted_list_of_fset "[1, 0, 0, 0, 0, 0, 0, 0]"]
  by simp

text \<open>
  Claim C9. The connection set behaves as a set at the event interface: a connect
  event for a handle already in the set leaves the keyboard unchanged; a disconnect
  event for a handle not in the set leaves the set unchanged and raises nothing,
  and still advertises again; and, the iteration visiting every element of the set
  once, \<^verbatim>\<open>send_report\<close> notifies every connected handle exactly once with the report,
  and no other handle.
\<close>

theorem connections_set_semantics:
  "(c |\<in>| connections kb \<longrightarrow> irq IRQ_CENTRAL_CONNECT (c, t, a) kb = kb) \<and>
   (c |\<notin>| connections kb \<longrightarrow>
      irq IRQ_CENTRAL_DISCONNECT (c, t, a) kb = advertise kb \<and>
      connections (irq IRQ_CENTRAL_DISCONNECT (c, t, a) kb) = connections kb \<and>
      ble_calls (irq IRQ_CENTRAL_DISCONNECT (c, t, a) kb) =
        ble_calls kb @ [Gap_advertise 100000 (payload kb)]) \<and>
   (distinct (order (connections kb)) \<and>
    fset_of_list (order (connections kb)) = connections kb \<longrightarrow>
      (\<exists>new. ble_calls (send_report order report kb) = ble_calls kb @ new \<and>
         length new = fcard (connections kb) \<and>
         (\<forall>h. count_list new (Gatts_notify h (report_handle kb) report) =
               (if h |\<in>| connections kb then 1 else 0))))"
proof (intro conjI impI)
  assume "c |\<in>| connections kb"
  then have "finsert c (connections kb) = connections kb" by (rule finsert_absorb)
  then show "irq IRQ_CENTRAL_CONNECT (c, t, a) kb = kb"
    by (simp add: irq_def)
next
  assume "c |\<notin>| connections kb"
  then have "connections kb |-| {|c|} = connections kb" by auto
  then show d: "irq IRQ_CENTRAL_DISCONNECT (c, t, a) kb = advertise kb"
    by (simp add: irq_def IRQ_CENTRAL_CONNECT_def IRQ_CENTRAL_DISCONNECT_def)
  show "connections (irq IRQ_CENTRAL_DISCONNECT (c, t, a) kb) = connections kb"
    unfolding d by (simp add: advertise_def)
  show "ble_calls (irq IRQ_CENTRAL_DISCONNECT (c, t, a) kb) =
        ble_calls kb @ [Gap_advertise 100000 (payload kb)]"
    unfolding d by (simp add: advertise_def)
next
  assume ord: "distinct (order (connections kb)) \<and>
    fset_of_list (order (connections kb)) = connections kb"
  let ?hs = "order (connections kb)"
  let ?new = "map (\<lambda>h. Gatts_notify h (report_handle kb) report) ?hs"
  have mem: "\<And>h. h \<in> set ?hs \<longleftrightarrow> h |\<in>| connections kb"
  proof -
    fix h
    have "h \<in> set ?hs \<longleftrightarrow> h |\<in>| fset_of_list ?hs"
      by (simp add: fset_of_list.rep_eq)
    then show "h \<in> set ?hs \<longleftrightarrow> h |\<in>| connections kb"
      using ord by simp
  qed
  have "fcard (fset_of_list ?hs) = length ?hs"
    using ord by (blast intro: fcard_fset_of_list)
  moreover have "fcard (fset_of_list ?hs) = fcard (connections kb)"
    using ord by (blast intro: arg_cong)
  ultimately have len: "length ?new = fcard (connections kb)"
    by simp
  have cnt: "\<forall>h. count_list ?new (Gatts_notify h (report_handle kb) report) =
               (if h |\<in>| connections kb then 1 else 0)"
    using ord by (simp add: count_list_notify count_list_distinct mem)
  show "\<exists>new. ble_calls (send_report order report kb) = ble_calls kb @ new \<and>
         length new = fcard (connections kb) \<and>
         (\<forall>h. count_list new (Gatts_notify h (report_handle kb) report) =
               (if h |\<in>| connections kb then 1 else 0))"
    using len cnt ble_calls_send_report [of order report kb] by blast
qed

theorem connections_set_semantics_witness:
  "3 |\<in>| connections paired_keyboard \<and>
   irq IRQ_CENTRAL_CONNECT (3, 0, []) paired_keyboard = paired_keyboard \<and>
   5 |\<notin>| connections paired_keyboard \<and>
   irq IRQ_CENTRAL_DISCONNECT (5, 0, []) paired_keyboard = advertise paired_keyboard \<and>
   distinct (sorted_list_of_fset (connections paired_keyboard)) \<and>
   fset_of_list (sorted_list_of_fset (connections paired_keyboard)) =
     connections paired_keyboard \<and>
   (\<exists>new. ble_calls (send_report sorted_list_of_fset [1, 0, 0, 0, 0, 0, 0, 0] paired_keyboard)
             = new \<and>
      length new = 1 \<and> count_list new (Gatts_notify 3 10 [1, 0, 0, 0, 0, 0, 0, 0]) = 1)"
proof -
  have h1: "3 |\<in>| connections paired_keyboard" and h2: "5 |\<notin>| connections paired_keyboard"
    by simp_all
  have h3: "distinct (sorted_list_of_fset (connections paired_keyboard)) \<and>
    fset_of_list (sorted_list_of_fset (connections paired_keyboard)) =
      connections paired_keyboard"
    by (simp add: sorted_list_of_fset_distinct)
  note inst3 = connections_set_semantics
    [of 3 paired_keyboard 0 "[]" sorted_list_of_fset "[1, 0, 0, 0, 0, 0, 0, 0]"]
  note inst5 = connections_set_semantics
    [of 5 paired_keyboard 0 "[]" sorted_list_of_fset "[1, 0, 0, 0, 0, 0, 0, 0]"]
  have a: "irq IRQ_CENTRAL_CONNECT (3, 0, []) paired_keyboard = paired_keyboard"
    using inst3 h1 by blast
  have b: "irq IRQ_CENTRAL_DISCONNECT (5, 0, []) paired_keyboard = advertise paired_keyboard"
    using inst5 h2 by blast
  have "\<exists>new. ble_calls (send_report sorted_list_of_fset [1, 0, 0, 0, 0, 0, 0, 0]
                  paired_keyboard) = ble_calls paired_keyboard @ new \<and>
         length new = fcard (connections paired_keyboard) \<and>
         (\<forall>h. count_list new (Gatts_notify h (report_handle paired_keyboard)
                 [1, 0, 0, 0, 0, 0, 0, 0]) =
               (if h |\<in>| connections paired_keyboard then 1 else 0))"
    using inst3 h3 by blast
  then obtain new where
    n1: "ble_calls (send_report sorted_list_of_fset [1, 0, 0, 0, 0, 0, 0, 0] paired_keyboard)
           = ble_calls paired_keyboard @ new"
    and n2: "length new = fcard (connections paired_keyboard)"
    and n3: "\<forall>h. count_list new (Gatts_notify h (report_handle paired_keyboard)
                 [1, 0, 0, 0, 0, 0, 0, 0]) =
               (if h |\<in>| connections paired_keyboard then 1 else 0)"
    by blast
  have c: "\<exists>new. ble_calls (send_report sorted_list_of_fset [1, 0, 0, 0, 0, 0, 0, 0]
               paired_keyboard) = new \<and>
      length new = 1 \<and> count_list new (Gatts_notify 3 10 [1, 0, 0, 0, 0, 0, 0, 0]) = 1"
    using n1 n2 n3 [rule_format, of 3] by (simp add: fcard.rep_eq)
  from h1 h2 h3 a b c show ?thesis by blast
qed

subsection \<open>The loop\<close>

lemma loop_body_reject:
  "\<not> (scan_buttons buttons \<noteq> last_state s \<and> DEBOUNCE_MS < ticks_diff now (last_change s))
   \<Longrightarrow> loop_body order cmap buttons now s = Inr s"
  by (auto simp: loop_body_def Let_def)

lemma loop_body_accept_unmapped:
  assumes "scan_buttons buttons \<noteq> last_state s"
    and "DEBOUNCE_MS < ticks_diff now (last_change s)"
    and "cmap (scan_buttons buttons) = None"
  shows "loop_body order cmap buttons now s =
         Inr \<lparr>keyboard = send_report order [1, 0, 0, 0, 0, 0, 0, 0] (keyboard s),
              last_state = scan_buttons buttons, last_change = now\<rparr>"
  using assms by (simp add: loop_body_def Let_def release_all_eq)

lemma loop_body_accept_mapped:
  assumes "scan_buttons buttons \<noteq> last_state s"
    and "DEBOUNCE_MS < ticks_diff now (last_change s)"
    and "cmap (scan_buttons buttons) = Some (m, ks)"
  shows "loop_body order cmap buttons now s =
         (case key_report m ks of
            Inl e \<Rightarrow> Inl e
          | Inr report \<Rightarrow>
              Inr \<lparr>keyboard = send_report order report
                                (send_report order [1, 0, 0, 0, 0, 0, 0, 0] (keyboard s)),
                   last_state = scan_buttons buttons, last_change = now\<rparr>)"
  using assms
  by (simp add: loop_body_def Let_def release_all_eq key_press_def split: sum.splits)

lemma main_loop_rejects:
  "\<forall>(buttons, now) \<in> set samples. ticks_diff now (last_change s) \<le> DEBOUNCE_MS \<Longrightarrow>
   main_loop order cmap (map (\<lambda>(buttons, now). Poll buttons now) samples) s = Inr s"
  by (induction samples) (auto simp: loop_body_reject)

lemma ticks_diff_examples:
  "ticks_diff 110 100 = 10" "ticks_diff 120 100 = 20" "ticks_diff 130 100 = 30"
  by (simp_all add: ticks_diff_def TICKS_PERIOD_def)

lemma scan_buttons_examples:
  "scan_buttons [0, 1, 1, 1, 1, 1] = [0]"
  "scan_buttons [1, 1, 1, 0, 0, 1] = [3, 4]"
  "scan_buttons [0, 1, 0, 1, 1, 1] = [0, 2]"
  "scan_buttons [1, 1, 1, 1, 1, 1] = []"
  by (simp_all add: scan_buttons_def enumerate_eq_zip upt_rec)

lemma COMBO_MAP_items_eval:
  "COMBO_MAP_items =
     [([0], (0, [9])), ([1], (0, [13])), ([2], (0, [7])), ([3], (0, [14])),
      ([4], (0, [22])), ([5], (0, [15])), ([0, 1], (0, [44])), ([2, 3], (0, [40])),
      ([4, 5], (0, [43])), ([0, 2], (2, [4])), ([1, 3], (2, [11])), ([0, 5], (0, [42]))]"
  by (simp add: COMBO_MAP_items_def KEY_CODES_def KEY_CODES_items_def)

lemma COMBO_MAP_entry:
  assumes "COMBO_MAP chord = Some (m, ks)"
  shows "length ks = 1 \<and> 0 \<le> m \<and> m \<le> 255 \<and> (\<forall>k \<in> set ks. 0 \<le> k \<and> k \<le> 255)"
proof -
  have "(chord, (m, ks)) \<in> set COMBO_MAP_items"
    using assms unfolding COMBO_MAP_def by (rule map_of_SomeD)
  then show ?thesis
    unfolding COMBO_MAP_items_eval by auto
qed

lemma COMBO_MAP_lookups:
  "COMBO_MAP [0] = Some (0, [9])" "COMBO_MAP [0, 2] = Some (2, [4])" "COMBO_MAP [3, 4] = None"
  by (simp_all add: COMBO_MAP_def COMBO_MAP_items_eval)

lemma COMBO_MAP_key_report:
  assumes "COMBO_MAP chord = Some (m, ks)"
  shows "\<exists>report. key_report m ks = Inr report"
  using COMBO_MAP_entry [OF assms] by (simp add: key_report_bytes)

lemma loop_body_COMBO_MAP_total: "\<exists>s'. loop_body order COMBO_MAP buttons now s = Inr s'"
proof (cases "scan_buttons buttons \<noteq> last_state s \<and> DEBOUNCE_MS < ticks_diff now (last_change s)")
  case False
  then show ?thesis by (simp add: loop_body_reject)
next
  case True
  show ?thesis
  proof (cases "COMBO_MAP (scan_buttons buttons)")
    case None
    with True show ?thesis by (simp add: loop_body_accept_unmapped)
  next
    case (Some entry)
    obtain m ks where entry: "entry = (m, ks)" by (cases entry)
    from Some entry have look: "COMBO_MAP (scan_buttons buttons) = Some (m, ks)" by simp
    from COMBO_MAP_key_report [OF look] obtain report where "key_report m ks = Inr report" ..
    with True look show ?thesis by (simp add: loop_body_accept_mapped)
  qed
qed

lemma main_loop_COMBO_MAP_total: "\<exists>s'. main_loop order COMBO_MAP inputs s = Inr s'"
proof (induction inputs arbitrary: s)
  case Nil
  show ?case by simp
next
  case (Cons i inputs)
  have "\<exists>s1. main_step order COMBO_MAP i s = Inr s1"
    by (cases i) (simp_all add: loop_body_COMBO_MAP_total)
  then obtain s1 where "main_step order COMBO_MAP i s = Inr s1" ..
  with Cons.IH [of s1] show ?case by simp
qed

lemma main_step_appends:
  assumes "main_step order cmap i s = Inr s'"
  shows "\<exists>later. ble_calls (keyboard s') = ble_calls (keyboard s) @ later"
proof (cases i)
  case (Poll buttons now)
  with assms have "loop_body order cmap buttons now s = Inr s'" by simp
  then show ?thesis
    by (auto simp: loop_body_def Let_def release_all_eq key_press_def ble_calls_send_report
                   send_report_fields
             split: if_splits sum.splits option.splits)
next
  case (Irq event data)
  with assms show ?thesis
    by (cases data) (auto simp: irq_def advertise_def)
qed

lemma main_loop_appends:
  "main_loop order cmap inputs s = Inr s' \<Longrightarrow>
   \<exists>later. ble_calls (keyboard s') = ble_calls (keyboard s) @ later"
proof (induction inputs arbitrary: s)
  case Nil
  then show ?case by simp
next
  case (Cons i inputs)
  from Cons.prems obtain s1 where step: "main_step order cmap i s = Inr s1"
    and rest: "main_loop order cmap inputs s1 = Inr s'"
    by (auto split: sum.splits)
  from main_step_appends [OF step] obtain l1
    where "ble_calls (keyboard s1) = ble_calls (keyboard s) @ l1" ..
  moreover from Cons.IH [OF rest] obtain l2
    where "ble_calls (keyboard s') = ble_calls (keyboard s1) @ l2" ..
  ultimately show ?case by simp
qed

text \<open>
  Claim C2. At a poll tick whose raw sample differs from the stable chord while
  the time elapsed since the last accepted change is at most the debounce window,
  no event is emitted and the state (stable chord, timestamp, keyboard) is left as
  it is; the same holds over any number of such ticks in a row; a tick changes the
  stable chord or the timestamp only when the raw sample differs and the elapsed
  time exceeds the window, and then they become the raw sample and the time of this
  tick.
\<close>

theorem debounce_rejects_within_window:
  "(scan_buttons buttons \<noteq> last_state s \<and> ticks_diff now (last_change s) \<le> DEBOUNCE_MS
      \<longrightarrow> loop_body order cmap buttons now s = Inr s) \<and>
   ((\<forall>(buttons, now) \<in> set samples.
        scan_buttons buttons \<noteq> last_state s \<and> ticks_diff now (last_change s) \<le> DEBOUNCE_MS)
      \<longrightarrow> main_loop order cmap (map (\<lambda>(buttons, now). Poll buttons now) samples) s = Inr s) \<and>
   (loop_body order cmap buttons now s = Inr s' \<and>
      (last_state s' \<noteq> last_state s \<or> last_change s' \<noteq> last_change s)
      \<longrightarrow> scan_buttons buttons \<noteq> last_state s \<and>
          DEBOUNCE_MS < ticks_diff now (last_change s)) \<and>
   (scan_buttons buttons \<noteq> last_state s \<and> DEBOUNCE_MS < ticks_diff now (last_change s) \<and>
      loop_body order cmap buttons now s = Inr s'
      \<longrightarrow> last_state s' = scan_buttons buttons \<and> last_change s' = now)"
proof (intro conjI impI)
  assume "scan_buttons buttons \<noteq> last_state s \<and> ticks_diff now (last_change s) \<le> DEBOUNCE_MS"
  then show "loop_body order cmap buttons now s = Inr s"
    by (simp add: loop_body_reject)
next
  assume "\<forall>(buttons, now) \<in> set samples.
        scan_buttons buttons \<noteq> last_state s \<and> ticks_diff now (last_change s) \<le> DEBOUNCE_MS"
  then have "\<forall>(buttons, now) \<in> set samples. ticks_diff now (last_change s) \<le> DEBOUNCE_MS"
    by auto
  then show "main_loop order cmap (map (\<lambda>(buttons, now). Poll buttons now) samples) s = Inr s"
    by (rule main_loop_rejects)
next
  assume a: "loop_body order cmap buttons now s = Inr s' \<and>
      (last_state s' \<noteq> last_state s \<or> last_change s' \<noteq> last_change s)"
  have "\<not> (scan_buttons buttons \<noteq> last_state s \<and> DEBOUNCE_MS < ticks_diff now (last_change s))
        \<Longrightarrow> False"
    using a loop_body_reject [of buttons s now order cmap] by auto
  then show "scan_buttons buttons \<noteq> last_state s"
    and "DEBOUNCE_MS < ticks_diff now (last_change s)"
    by auto
next
  assume a: "scan_buttons buttons \<noteq> last_state s \<and>
      DEBOUNCE_MS < ticks_diff now (last_change s) \<and>
      loop_body order cmap buttons now s = Inr s'"
  then show "last_state s' = scan_buttons buttons" and "last_change s' = now"
    by (auto simp: loop_body_def Let_def split: sum.splits option.splits)
qed

theorem debounce_rejects_within_window_witness:
  "scan_buttons [0, 1, 1, 1, 1, 1] \<noteq> last_state idle_state \<and>
   ticks_diff 110 (last_change idle_state) \<le> DEBOUNCE_MS \<and>
   ticks_diff 120 (last_change idle_state) \<le> DEBOUNCE_MS \<and>
   loop_body sorted_list_of_fset COMBO_MAP [0, 1, 1, 1, 1, 1] 110 idle_state = Inr idle_state \<and>
   main_loop sorted_list_of_fset COMBO_MAP
     [Poll [0, 1, 1, 1, 1, 1] 110, Poll [0, 1, 1, 1, 1, 1] 120] idle_state = Inr idle_state \<and>
   DEBOUNCE_MS < ticks_diff 130 (last_change idle_state) \<and>
   (\<exists>s'. loop_body sorted_list_of_fset COMBO_MAP [0, 1, 1, 1, 1, 1] 130 idle_state = Inr s' \<and>
      last_state s' = [0] \<and> last_change s' = 130)"
proof -
  have h1: "scan_buttons [0, 1, 1, 1, 1, 1] \<noteq> last_state idle_state"
    by (simp add: scan_buttons_examples)
  have h2: "ticks_diff 110 (last_change idle_state) \<le> DEBOUNCE_MS"
    by (simp add: ticks_diff_examples DEBOUNCE_MS_def)
  have h3: "ticks_diff 120 (last_change idle_state) \<le> DEBOUNCE_MS"
    by (simp add: ticks_diff_examples DEBOUNCE_MS_def)
  have h4: "DEBOUNCE_MS < ticks_diff 130 (last_change idle_state)"
    by (simp add: ticks_diff_examples DEBOUNCE_MS_def)
  obtain s' where s':
    "loop_body sorted_list_of_fset COMBO_MAP [0, 1, 1, 1, 1, 1] 130 idle_state = Inr s'"
    using loop_body_COMBO_MAP_total by blast
  note inst = debounce_rejects_within_window
    [of "[0, 1, 1, 1, 1, 1]" idle_state _ sorted_list_of_fset COMBO_MAP
        "[([0, 1, 1, 1, 1, 1], 110), ([0, 1, 1, 1, 1, 1], 120)]" s']
  have a: "loop_body sorted_list_of_fset COMBO_MAP [0, 1, 1, 1, 1, 1] 110 idle_state
          = Inr idle_state"
    by (rule inst [of 110, THEN conjunct1, THEN mp]) (rule conjI [OF h1 h2])
  have prem: "\<forall>(buttons, now) \<in> set [([0, 1, 1, 1, 1, 1], 110), ([0, 1, 1, 1, 1, 1], 120)].
      scan_buttons buttons \<noteq> last_state idle_state \<and>
      ticks_diff now (last_change idle_state) \<le> DEBOUNCE_MS"
    using h1 h2 h3 by (simp only: list.set ball_simps prod.case) blast
  have "main_loop sorted_list_of_fset COMBO_MAP
      (map (\<lambda>(buttons, now). Poll buttons now)
         [([0, 1, 1, 1, 1, 1], 110), ([0, 1, 1, 1, 1, 1], 120)]) idle_state = Inr idle_state"
    by (rule inst [of 110, THEN conjunct2, THEN conjunct1, THEN mp]) (rule prem)
  then have b: "main_loop sorted_list_of_fset COMBO_MAP
      [Poll [0, 1, 1, 1, 1, 1] 110, Poll [0, 1, 1, 1, 1, 1] 120] idle_state = Inr idle_state"
    by (simp only: list.map prod.case)
  have "last_state s' = scan_buttons [0, 1, 1, 1, 1, 1] \<and> last_change s' = 130"
    by (rule inst [of 130, THEN conjunct2, THEN conjunct2, THEN conjunct2, THEN mp])
       (intro conjI h1 h4 s')
  then have c: "last_state s' = [0] \<and> last_change s' = 130"
    by (simp only: scan_buttons_examples)
  from h1 h2 h3 h4 a b c s' show ?thesis by blast
qed

text \<open>
  Claim C4. At every accepted transition into a chord that has no entry in the
  table, the tick raises nothing and sends exactly one report, the release-all,
  to every connected handle; no key report follows.
\<close>

theorem unmapped_chord_release_only:
  assumes "scan_buttons buttons \<noteq> last_state s"
    and "DEBOUNCE_MS < ticks_diff now (last_change s)"
    and "cmap (scan_buttons buttons) = None"
  shows "loop_body order cmap buttons now s =
           Inr \<lparr>keyboard = send_report order [1, 0, 0, 0, 0, 0, 0, 0] (keyboard s),
                last_state = scan_buttons buttons, last_change = now\<rparr> \<and>
         ble_calls (send_report order [1, 0, 0, 0, 0, 0, 0, 0] (keyboard s)) =
           ble_calls (keyboard s) @
           map (\<lambda>h. Gatts_notify h (report_handle (keyboard s)) [1, 0, 0, 0, 0, 0, 0, 0])
               (order (connections (keyboard s)))"
  using assms by (simp add: loop_body_accept_unmapped ble_calls_send_report)

theorem unmapped_chord_release_only_witness:
  "scan_buttons [1, 1, 1, 0, 0, 1] \<noteq> last_state idle_state \<and>
   DEBOUNCE_MS < ticks_diff 130 (last_change idle_state) \<and>
   COMBO_MAP (scan_buttons [1, 1, 1, 0, 0, 1]) = None \<and>
   loop_body sorted_list_of_fset COMBO_MAP [1, 1, 1, 0, 0, 1] 130 idle_state =
     Inr \<lparr>keyboard = send_report sorted_list_of_fset [1, 0, 0, 0, 0, 0, 0, 0] paired_keyboard,
          last_state = [3, 4], last_change = 130\<rparr> \<and>
   ble_calls (send_report sorted_list_of_fset [1, 0, 0, 0, 0, 0, 0, 0] paired_keyboard) =
     [Gatts_notify 3 10 [1, 0, 0, 0, 0, 0, 0, 0]]"
proof -
  have h1: "scan_buttons [1, 1, 1, 0, 0, 1] \<noteq> last_state idle_state"
    by (simp add: scan_buttons_examples)
  have h2: "DEBOUNCE_MS < ticks_diff 130 (last_change idle_state)"
    by (simp add: ticks_diff_examples DEBOUNCE_MS_def)
  have h3: "COMBO_MAP (scan_buttons [1, 1, 1, 0, 0, 1]) = None"
    by (simp add: scan_buttons_examples COMBO_MAP_lookups)
  note inst = unmapped_chord_release_only
    [of "[1, 1, 1, 0, 0, 1]" idle_state 130 COMBO_MAP sorted_list_of_fset, OF h1 h2 h3]
  have a: "loop_body sorted_list_of_fset COMBO_MAP [1, 1, 1, 0, 0, 1] 130 idle_state =
     Inr \<lparr>keyboard = send_report sorted_list_of_fset [1, 0, 0, 0, 0, 0, 0, 0] paired_keyboard,
          last_state = [3, 4], last_change = 130\<rparr>"
    using inst [THEN conjunct1] by (simp add: scan_buttons_examples)
  have b: "ble_calls (send_report sorted_list_of_fset [1, 0, 0, 0, 0, 0, 0, 0] paired_keyboard) =
     [Gatts_notify 3 10 [1, 0, 0, 0, 0, 0, 0, 0]]"
    using inst [THEN conjunct2] by (simp add: sorted_list_of_fset_single)
  from h1 h2 h3 a b show ?thesis by blast
qed

text \<open>
  Claim C3. At every accepted transition into a chord that has an entry in the
  table (whose report packs), the calls made on the radio stack by this tick are
  the notifications of the release-all report (modifier 0 and six zero key codes
  behind the report id) followed by the notifications of the report of the new
  chord, and nothing else; the run then continues from the state in which both
  sends are done, so whatever later ticks and events do comes after them.
\<close>

theorem release_all_before_key_press:
  assumes "scan_buttons buttons \<noteq> last_state s"
    and "DEBOUNCE_MS < ticks_diff now (last_change s)"
    and "cmap (scan_buttons buttons) = Some (m, ks)"
    and "key_report m ks = Inr report"
  shows "\<exists>s'. loop_body order cmap buttons now s = Inr s' \<and>
           ble_calls (keyboard s') =
             ble_calls (keyboard s) @
             map (\<lambda>h. Gatts_notify h (report_handle (keyboard s)) [1, 0, 0, 0, 0, 0, 0, 0])
                 (order (connections (keyboard s))) @
             map (\<lambda>h. Gatts_notify h (report_handle (keyboard s)) report)
                 (order (connections (keyboard s))) \<and>
           main_loop order cmap (Poll buttons now # rest) s = main_loop order cmap rest s' \<and>
           (\<forall>s''. main_loop order cmap (Poll buttons now # rest) s = Inr s'' \<longrightarrow>
              (\<exists>later. ble_calls (keyboard s'') = ble_calls (keyboard s') @ later))"
proof -
  let ?s' = "\<lparr>keyboard = send_report order report
                            (send_report order [1, 0, 0, 0, 0, 0, 0, 0] (keyboard s)),
               last_state = scan_buttons buttons, last_change = now\<rparr>"
  have body: "loop_body order cmap buttons now s = Inr ?s'"
    using assms by (simp add: loop_body_accept_mapped)
  have calls: "ble_calls (keyboard ?s') =
             ble_calls (keyboard s) @
             map (\<lambda>h. Gatts_notify h (report_handle (keyboard s)) [1, 0, 0, 0, 0, 0, 0, 0])
                 (order (connections (keyboard s))) @
             map (\<lambda>h. Gatts_notify h (report_handle (keyboard s)) report)
                 (order (connections (keyboard s)))"
    by (simp add: ble_calls_send_report send_report_fields)
  have next_tick:
    "main_loop order cmap (Poll buttons now # rest) s = main_loop order cmap rest ?s'"
    using body by simp
  have later: "\<forall>s''. main_loop order cmap (Poll buttons now # rest) s = Inr s'' \<longrightarrow>
              (\<exists>later. ble_calls (keyboard s'') = ble_calls (keyboard ?s') @ later)"
    unfolding next_tick by (blast dest: main_loop_appends)
  from body calls next_tick later show ?thesis by blast
qed

theorem release_all_before_key_press_witness:
  "scan_buttons [0, 1, 0, 1, 1, 1] \<noteq> last_state idle_state \<and>
   DEBOUNCE_MS < ticks_diff 130 (last_change idle_state) \<and>
   COMBO_MAP (scan_buttons [0, 1, 0, 1, 1, 1]) = Some (2, [4]) \<and>
   key_report 2 [4] = Inr [1, 2, 4, 0, 0, 0, 0, 0] \<and>
   (\<exists>s'. loop_body sorted_list_of_fset COMBO_MAP [0, 1, 0, 1, 1, 1] 130 idle_state = Inr s' \<and>
      ble_calls (keyboard s') =
        [Gatts_notify 3 10 [1, 0, 0, 0, 0, 0, 0, 0], Gatts_notify 3 10 [1, 2, 4, 0, 0, 0, 0, 0]] \<and>
      main_loop sorted_list_of_fset COMBO_MAP [Poll [0, 1, 0, 1, 1, 1] 130] idle_state = Inr s')"
proof -
  have h1: "scan_buttons [0, 1, 0, 1, 1, 1] \<noteq> last_state idle_state"
    by (simp add: scan_buttons_examples)
  have h2: "DEBOUNCE_MS < ticks_diff 130 (last_change idle_state)"
    by (simp add: ticks_diff_examples DEBOUNCE_MS_def)
  have h3: "COMBO_MAP (scan_buttons [0, 1, 0, 1, 1, 1]) = Some (2, [4])"
    by (simp add: scan_buttons_examples COMBO_MAP_lookups)
  note h4 = key_report_2_4
  from release_all_before_key_press
    [of "[0, 1, 0, 1, 1, 1]" idle_state 130 COMBO_MAP 2 "[4]" "[1, 2, 4, 0, 0, 0, 0, 0]"
        sorted_list_of_fset "[]", OF h1 h2 h3 h4]
  obtain s' where
    a: "loop_body sorted_list_of_fset COMBO_MAP [0, 1, 0, 1, 1, 1] 130 idle_state = Inr s'"
    and b: "ble_calls (keyboard s') =
             ble_calls (keyboard idle_state) @
             map (\<lambda>h. Gatts_notify h (report_handle (keyboard idle_state))
                    [1, 0, 0, 0, 0, 0, 0, 0])
                 (sorted_list_of_fset (connections (keyboard idle_state))) @
             map (\<lambda>h. Gatts_notify h (report_handle (keyboard idle_state))
                    [1, 2, 4, 0, 0, 0, 0, 0])
                 (sorted_list_of_fset (connections (keyboard idle_state)))"
    and c: "main_loop sorted_list_of_fset COMBO_MAP [Poll [0, 1, 0, 1, 1, 1] 130] idle_state =
            main_loop sorted_list_of_fset COMBO_MAP [] s'"
    by blast
  have b': "ble_calls (keyboard s') =
        [Gatts_notify 3 10 [1, 0, 0, 0, 0, 0, 0, 0], Gatts_notify 3 10 [1, 2, 4, 0, 0, 0, 0, 0]]"
    using b by (simp add: sorted_list_of_fset_single)
  have c': "main_loop sorted_list_of_fset COMBO_MAP [Poll [0, 1, 0, 1, 1, 1] 130] idle_state
              = Inr s'"
    using c by simp
  from h1 h2 h3 h4 a b' c' show ?thesis by blast
qed

text \<open>
  Claim C10. Every entry of \<^verbatim>\<open>COMBO_MAP\<close> holds exactly one key code, so the padding
  length \<^verbatim>\<open>6 - len(keycodes)\<close> is not negative and the report of the entry packs;
  with this table no poll tick and no run of the loop ends in an exception: the
  failure of \<^verbatim>\<open>key_press\<close> on more than six key codes is not reachable.
\<close>

theorem COMBO_MAP_keycodes_fit:
  "(COMBO_MAP chord = Some (m, ks) \<longrightarrow>
      length ks = 1 \<and> 0 \<le> 6 - int (length ks) \<and> (\<exists>report. key_report m ks = Inr report)) \<and>
   (\<exists>s'. loop_body order COMBO_MAP buttons now s = Inr s') \<and>
   (\<exists>s'. main_loop order COMBO_MAP inputs s = Inr s')"
proof (intro conjI impI)
  assume look: "COMBO_MAP chord = Some (m, ks)"
  from COMBO_MAP_entry [OF look] show "length ks = 1" and "0 \<le> 6 - int (length ks)"
    by simp_all
  from look show "\<exists>report. key_report m ks = Inr report"
    by (rule COMBO_MAP_key_report)
next
  show "\<exists>s'. loop_body order COMBO_MAP buttons now s = Inr s'"
    by (rule loop_body_COMBO_MAP_total)
  show "\<exists>s'. main_loop order COMBO_MAP inputs s = Inr s'"
    by (rule main_loop_COMBO_MAP_total)
qed

theorem COMBO_MAP_keycodes_fit_witness:
  "COMBO_MAP [0, 2] = Some (2, [4]) \<and> length [4 :: int] = 1 \<and>
   (\<exists>report. key_report 2 [4] = Inr report) \<and>
   (\<exists>s'. loop_body sorted_list_of_fset COMBO_MAP [0, 1, 0, 1, 1, 1] 130 idle_state = Inr s')"
proof -
  have look: "COMBO_MAP [0, 2] = Some (2, [4])"
    by (rule COMBO_MAP_lookups)
  note inst = COMBO_MAP_keycodes_fit
    [of "[0, 2]" 2 "[4]" sorted_list_of_fset "[0, 1, 0, 1, 1, 1]" 130 idle_state "[]"]
  have a: "length [4 :: int] = 1 \<and> (\<exists>report. key_report 2 [4] = Inr report)"
    using inst [THEN conjunct1, THEN mp, OF look] by blast
  have b: "\<exists>s'. loop_body sorted_list_of_fset COMBO_MAP [0, 1, 0, 1, 1, 1] 130 idle_state
                  = Inr s'"
    by (rule inst [THEN conjunct2, THEN conjunct1])
  from look a b show ?thesis by blast
qed

subsection \<open>More than six key codes\<close>





end
